theory Spec2Isabelle
  imports Main "HOL-Library.Sublist" "HOL-Library.Extended_Nat" "HOL-Library.Multiset"
begin

section \<open>Text, errors\<close>

text \<open>
  The program works on Python unicode strings. A string is modelled as the list of its
  code points, since the scope markers U+FDD0 .. U+FDEF do not fit a byte.
  \<open>u\<close> turns an ASCII literal into such a string.
\<close>

type_synonym uchar = nat
type_synonym ustring = "nat list"

definition u :: "string \<Rightarrow> ustring" where
  "u s = map of_char s"

datatype py_error = ValueError | TypeError | KeyError | IndexError | Unmodelled

section \<open>sort.py\<close>

subsection \<open>key_natural\<close>

text \<open>
  \<open>char.isdigit()\<close>, \<open>int(char)\<close> and \<open>char.lower()\<close> on the ASCII range. Code points
  beyond ASCII are treated as non-digits that \<open>lower\<close> leaves alone; Python's Unicode
  tables for them are not modelled.
\<close>

definition isdigit :: "uchar \<Rightarrow> bool" where
  "isdigit c = (48 \<le> c \<and> c \<le> 57)"

definition int_of_char :: "uchar \<Rightarrow> nat" where
  "int_of_char c = c - 48"

definition lower_char :: "uchar \<Rightarrow> uchar" where
  "lower_char c = (if 65 \<le> c \<and> c \<le> 90 then c + 32 else c)"

definition lower :: "ustring \<Rightarrow> ustring" where
  "lower s = map lower_char s"









text \<open>
  \<open>sorted(items, key=f)\<close>: a stable sort that only asks whether one key is less than
  another. An item is placed before the first item of the sorted rest whose key is not
  smaller than its own.
\<close>

fun insort_by :: "('k \<Rightarrow> 'k \<Rightarrow> bool) \<Rightarrow> ('a \<Rightarrow> 'k) \<Rightarrow> 'a \<Rightarrow> 'a list \<Rightarrow> 'a list" where
  "insort_by lt f x [] = [x]"
| "insort_by lt f x (y # ys) =
     (if lt (f y) (f x) then y # insort_by lt f x ys else x # y # ys)"

definition sorted_by :: "('k \<Rightarrow> 'k \<Rightarrow> bool) \<Rightarrow> ('a \<Rightarrow> 'k) \<Rightarrow> 'a list \<Rightarrow> 'a list" where
  "sorted_by lt f xs = foldr (insort_by lt f) xs []"


text \<open>
  The comparator as the specification words it: the string is cut into its maximal runs
  of digits, each read as one decimal number, and its other characters, lowercased.
\<close>

definition decimal :: "ustring \<Rightarrow> nat" where
  "decimal ds = foldl (\<lambda>a d. a * 10 + int_of_char d) 0 ds"


subsection \<open>key_canon\<close>

text \<open>
  FILENAME_TO_OSIS (a dict) and CANONICAL_ORDER (a list) come from the module bookdata;
  they are parameters here. \<open>list.index\<close> raises ValueError for a value that is not in
  the list; \<open>float('inf')\<close> is the greatest element of \<open>enat\<close>.
\<close>

fun index :: "'a list \<Rightarrow> 'a \<Rightarrow> py_error + nat" where
  "index [] v = Inl ValueError"
| "index (x # xs) v =
     (if x = v then Inr 0 else (case index xs v of Inl e \<Rightarrow> Inl e | Inr i \<Rightarrow> Inr (Suc i)))"

definition key_canon ::
    "(ustring \<rightharpoonup> ustring) \<Rightarrow> ustring list \<Rightarrow> ustring \<Rightarrow> py_error + enat" where
  "key_canon FILENAME_TO_OSIS CANONICAL_ORDER filename =
     (case FILENAME_TO_OSIS filename of
        Some book \<Rightarrow> (case index CANONICAL_ORDER book of
                        Inl e \<Rightarrow> Inl e
                      | Inr i \<Rightarrow> Inr (enat i))
      | None \<Rightarrow> Inr \<infinity>)"

text \<open>The position of a book in CANONICAL_ORDER, for a book that is in the list.\<close>

definition canon_position :: "ustring list \<Rightarrow> ustring \<Rightarrow> nat" where
  "canon_position C b = (case index C b of Inr i \<Rightarrow> i | Inl e \<Rightarrow> 0)"

text \<open>
  Sorting with a key function that may raise: Python computes the key of every item
  first, in order, and the first exception ends the sort.
\<close>

fun keys_of :: "('a \<Rightarrow> py_error + 'k) \<Rightarrow> 'a list \<Rightarrow> py_error + ('k \<times> 'a) list" where
  "keys_of f [] = Inr []"
| "keys_of f (x # xs) =
     (case f x of
        Inl e \<Rightarrow> Inl e
      | Inr k \<Rightarrow> (case keys_of f xs of Inl e \<Rightarrow> Inl e | Inr ks \<Rightarrow> Inr ((k, x) # ks)))"

definition sorted_canon ::
    "(ustring \<rightharpoonup> ustring) \<Rightarrow> ustring list \<Rightarrow> ustring list \<Rightarrow> py_error + ustring list" where
  "sorted_canon FILENAME_TO_OSIS CANONICAL_ORDER files =
     (case keys_of (key_canon FILENAME_TO_OSIS CANONICAL_ORDER) files of
        Inl e \<Rightarrow> Inl e
      | Inr ks \<Rightarrow> Inr (map snd (sorted_by (<) fst ks)))"

subsection \<open>key_supplied\<close>

text \<open>
  The attribute \<open>key_supplied.counter\<close> is the state: None while the function object has
  no such attribute, Some n afterwards. A call returns the key and the new state.
\<close>

type_synonym counter_state = "nat option"

definition counter_value :: "counter_state \<Rightarrow> nat" where
  "counter_value st = (case st of None \<Rightarrow> 0 | Some c \<Rightarrow> c)"

definition key_supplied :: "counter_state \<Rightarrow> 'a \<Rightarrow> nat \<times> counter_state" where
  "key_supplied st dummy_val =
     (let counter = counter_value st;
          counter' = counter + 1
      in (counter', Some counter'))"

text \<open>
  One sorting run with this key: the keys are computed for the items in order, the
  state going from call to call, then the items are sorted by them. The run returns
  the keys it assigned, the sorted items and the state it leaves behind.
\<close>

fun supplied_keys :: "counter_state \<Rightarrow> 'a list \<Rightarrow> (nat \<times> 'a) list \<times> counter_state" where
  "supplied_keys st [] = ([], st)"
| "supplied_keys st (x # xs) =
     (let (k, st') = key_supplied st x;
          (ks, st'') = supplied_keys st' xs
      in ((k, x) # ks, st''))"

definition sorted_supplied :: "counter_state \<Rightarrow> 'a list \<Rightarrow> nat list \<times> 'a list \<times> counter_state" where
  "sorted_supplied st items =
     (let (ks, st') = supplied_keys st items
      in (map fst ks, map snd (sorted_by (<) fst ks), st'))"

section \<open>Strings and regular expressions\<close>

subsection \<open>Characters\<close>

text \<open>
  The backslash, the line feed and the scope markers, by the names the source gives
  them (U+FDD0 .. U+FDEF). \<open>ch\<close> is the code point of an ASCII character.
\<close>

abbreviation ch :: "char \<Rightarrow> uchar" where "ch c \<equiv> of_char c"
abbreviation bs :: uchar where "bs \<equiv> 92"
abbreviation nl :: uchar where "nl \<equiv> 10"
abbreviation FDD0 :: uchar where "FDD0 \<equiv> 64976"
abbreviation FDD1 :: uchar where "FDD1 \<equiv> 64977"
abbreviation FDD2 :: uchar where "FDD2 \<equiv> 64978"
abbreviation FDD3 :: uchar where "FDD3 \<equiv> 64979"
abbreviation FDD4 :: uchar where "FDD4 \<equiv> 64980"
abbreviation FDD5 :: uchar where "FDD5 \<equiv> 64981"
abbreviation FDD6 :: uchar where "FDD6 \<equiv> 64982"
abbreviation FDD7 :: uchar where "FDD7 \<equiv> 64983"
abbreviation FDD8 :: uchar where "FDD8 \<equiv> 64984"
abbreviation FDD9 :: uchar where "FDD9 \<equiv> 64985"
abbreviation FDDA :: uchar where "FDDA \<equiv> 64986"
abbreviation FDDB :: uchar where "FDDB \<equiv> 64987"
abbreviation FDDC :: uchar where "FDDC \<equiv> 64988"
abbreviation FDDD :: uchar where "FDDD \<equiv> 64989"
abbreviation FDDE :: uchar where "FDDE \<equiv> 64990"
abbreviation FDDF :: uchar where "FDDF \<equiv> 64991"
abbreviation FDE0 :: uchar where "FDE0 \<equiv> 64992"
abbreviation FDE1 :: uchar where "FDE1 \<equiv> 64993"
abbreviation FDE2 :: uchar where "FDE2 \<equiv> 64994"
abbreviation FDE3 :: uchar where "FDE3 \<equiv> 64995"
abbreviation FDE4 :: uchar where "FDE4 \<equiv> 64996"
abbreviation FDE5 :: uchar where "FDE5 \<equiv> 64997"
abbreviation FDE6 :: uchar where "FDE6 \<equiv> 64998"
abbreviation FDE7 :: uchar where "FDE7 \<equiv> 64999"
abbreviation FDE8 :: uchar where "FDE8 \<equiv> 65000"
abbreviation FDE9 :: uchar where "FDE9 \<equiv> 65001"
abbreviation FDEA :: uchar where "FDEA \<equiv> 65002"
abbreviation FDEB :: uchar where "FDEB \<equiv> 65003"
abbreviation FDEC :: uchar where "FDEC \<equiv> 65004"
abbreviation FDED :: uchar where "FDED \<equiv> 65005"
abbreviation FDEE :: uchar where "FDEE \<equiv> 65006"
abbreviation FDEF :: uchar where "FDEF \<equiv> 65007"

text \<open>
  The character classes of \<open>re\<close> on ASCII, as they are for a pattern compiled without
  re.UNICODE in Python 2: \<open>\s\<close> is space, tab, line feed, vertical tab, form feed and
  carriage return; \<open>\d\<close> is 0-9; \<open>\w\<close> is a letter, a digit or the underscore.
\<close>

definition is_space :: "uchar \<Rightarrow> bool" where
  "is_space c = (c = 32 \<or> (9 \<le> c \<and> c \<le> 13))"

definition is_word :: "uchar \<Rightarrow> bool" where
  "is_word c = ((48 \<le> c \<and> c \<le> 57) \<or> (65 \<le> c \<and> c \<le> 90) \<or> c = 95 \<or> (97 \<le> c \<and> c \<le> 122))"

subsection \<open>str.replace, str.split, str.join\<close>

text \<open>
  \<open>s.replace(old, new)\<close> replaces the occurrences of old from left to right, without
  overlap. (For an empty old Python puts new around every character.)
\<close>

function replace :: "ustring \<Rightarrow> ustring \<Rightarrow> ustring \<Rightarrow> ustring" where
  "replace old new s =
     (if old = [] then new @ concat (map (\<lambda>c. c # new) s)
      else if prefix old s then new @ replace old new (drop (length old) s)
      else (case s of [] \<Rightarrow> [] | c # cs \<Rightarrow> c # replace old new cs))"
  by pat_completeness auto
termination
  by (relation "measure (\<lambda>(old, new, s). length s)") (auto simp: prefix_def)

text \<open>\<open>s.split(sep)\<close> for a separator that is not empty; acc is the piece being read.\<close>

function split_from :: "ustring \<Rightarrow> ustring \<Rightarrow> ustring \<Rightarrow> ustring list" where
  "split_from sep acc s =
     (if s = [] then [acc]
      else if sep \<noteq> [] \<and> prefix sep s then acc # split_from sep [] (drop (length sep) s)
      else split_from sep (acc @ [hd s]) (tl s))"
  by pat_completeness auto
termination
  by (relation "measure (\<lambda>(sep, acc, s). length s)") (auto simp: prefix_def)

definition split :: "ustring \<Rightarrow> ustring \<Rightarrow> ustring list" where
  "split sep s = split_from sep [] s"

fun join :: "ustring \<Rightarrow> ustring list \<Rightarrow> ustring" where
  "join sep [] = []"
| "join sep [x] = x"
| "join sep (x # y # ys) = x @ sep @ join sep (y # ys)"


subsection \<open>Regular expressions\<close>

text \<open>
  The patterns of the program are terms of \<open>rx\<close>. \<open>Dot\<close> is \<open>.\<close> without re.DOTALL (any
  character but the line feed) and \<open>AnyChar\<close> is \<open>.\<close> with it; \<open>Star True r\<close> is \<open>r*\<close> and
  \<open>Star False r\<close> is \<open>r*?\<close>; \<open>Group n r\<close> is the n-th capturing group; \<open>Look r\<close> is
  \<open>(?=r)\<close> and \<open>NLook r\<close> is \<open>(?!r)\<close>; \<open>WordB\<close> is \<open>\b\<close> and \<open>Eol\<close> is \<open>$\<close>.
\<close>

datatype citem = CChar uchar | CRange uchar uchar | CSpace | CDigit | CWord

fun citem_has :: "citem \<Rightarrow> uchar \<Rightarrow> bool" where
  "citem_has (CChar a) c = (c = a)"
| "citem_has (CRange a b) c = (a \<le> c \<and> c \<le> b)"
| "citem_has CSpace c = is_space c"
| "citem_has CDigit c = isdigit c"
| "citem_has CWord c = is_word c"

definition cchars :: "ustring \<Rightarrow> citem list" where
  "cchars cs = map CChar cs"

datatype rx =
    Eps
  | Str ustring
  | In "citem list"
  | NotIn "citem list"
  | Dot
  | AnyChar
  | Seq rx rx
  | Alt rx rx
  | Star bool rx
  | Group nat rx
  | Look rx
  | NLook rx
  | WordB
  | Eol

fun seq :: "rx list \<Rightarrow> rx" where
  "seq [] = Eps"
| "seq [r] = r"
| "seq (r # q # rs) = Seq r (seq (q # rs))"

fun alt :: "rx list \<Rightarrow> rx" where
  "alt [] = NLook Eps"
| "alt [r] = r"
| "alt (r # q # rs) = Alt r (alt (q # rs))"

definition plus :: "bool \<Rightarrow> rx \<Rightarrow> rx" where
  "plus greedy r = Seq r (Star greedy r)"

definition opt :: "bool \<Rightarrow> rx \<Rightarrow> rx" where
  "opt greedy r = (if greedy then Alt r Eps else Alt Eps r)"

text \<open>
  A state of the matcher: the character before the current position (for \<open>\b\<close>), the
  number of characters left, the text left, and the groups captured so far, the latest
  first.
\<close>

datatype mstate =
  MState (prev: "uchar option") (left: nat) (rest: ustring) (caps: "(nat \<times> ustring) list")

fun eat :: "ustring \<Rightarrow> mstate \<Rightarrow> mstate list" where
  "eat [] st = [st]"
| "eat (c # w) (MState p n [] k) = []"
| "eat (c # w) (MState p n (d # r) k) =
     (if c = d then eat w (MState (Some d) (n - 1) r k) else [])"

fun one :: "(uchar \<Rightarrow> bool) \<Rightarrow> mstate \<Rightarrow> mstate list" where
  "one P (MState p n [] k) = []"
| "one P (MState p n (d # r) k) = (if P d then [MState (Some d) (n - 1) r k] else [])"

definition word_before :: "mstate \<Rightarrow> bool" where
  "word_before st = (case prev st of None \<Rightarrow> False | Some c \<Rightarrow> is_word c)"

definition word_after :: "mstate \<Rightarrow> bool" where
  "word_after st = (case rest st of [] \<Rightarrow> False | c # cs \<Rightarrow> is_word c)"

definition set_cap :: "nat \<Rightarrow> mstate \<Rightarrow> mstate \<Rightarrow> mstate" where
  "set_cap g st st' =
     MState (prev st') (left st') (rest st') ((g, take (left st - left st') (rest st)) # caps st')"

text \<open>
  \<open>ms r st\<close> lists the states in which a match of r begun in st can end, in the order
  in which the backtracking matcher of \<open>re\<close> tries them: the first is the match that
  \<open>re\<close> reports. A repetition stops at an iteration that consumes nothing (no pattern of
  the program repeats something that can match the empty string).
\<close>

function ms :: "rx \<Rightarrow> mstate \<Rightarrow> mstate list" where
  "ms Eps st = [st]"
| "ms (Str w) st = eat w st"
| "ms (In items) st = one (\<lambda>c. list_ex (\<lambda>i. citem_has i c) items) st"
| "ms (NotIn items) st = one (\<lambda>c. \<not> list_ex (\<lambda>i. citem_has i c) items) st"
| "ms Dot st = one (\<lambda>c. c \<noteq> nl) st"
| "ms AnyChar st = one (\<lambda>c. True) st"
| "ms (Seq a b) st = concat (map (ms b) (ms a st))"
| "ms (Alt a b) st = ms a st @ ms b st"
| "ms (Star greedy r) st =
     (let more = concat (map (\<lambda>st'. if left st' < left st then ms (Star greedy r) st' else [])
                             (ms r st))
      in if greedy then more @ [st] else st # more)"
| "ms (Group g r) st = map (set_cap g st) (ms r st)"
| "ms (Look r) st =
     (case ms r st of [] \<Rightarrow> [] | st' # x \<Rightarrow> [MState (prev st) (left st) (rest st) (caps st')])"
| "ms (NLook r) st = (case ms r st of [] \<Rightarrow> [st] | st' # x \<Rightarrow> [])"
| "ms WordB st = (if word_before st \<noteq> word_after st then [st] else [])"
| "ms Eol st = (if rest st = [] \<or> rest st = [nl] then [st] else [])"
  by pat_completeness auto
termination
  by (relation "inv_image (less_than <*lex*> less_than) (\<lambda>(r, st). (size r, left st))") auto

text \<open>
  A match object: the groups that took part in the match, group 0 being the whole
  match. \<open>group m g\<close> is \<open>m.group(g)\<close>, None for a group that did not take part;
  \<open>gref m g\<close> is what a reference \<open>\g\<close> in a replacement template stands for.
\<close>

type_synonym rmatch = "(nat \<times> ustring) list"

definition group :: "rmatch \<Rightarrow> nat \<Rightarrow> ustring option" where
  "group m g = map_of m g"

definition gref :: "rmatch \<Rightarrow> nat \<Rightarrow> ustring" where
  "gref m g = (case map_of m g of None \<Rightarrow> [] | Some t \<Rightarrow> t)"

text \<open>The match of p that begins at the current position, if there is one.\<close>

definition match_at :: "rx \<Rightarrow> uchar option \<Rightarrow> nat \<Rightarrow> ustring \<Rightarrow> (rmatch \<times> mstate) option" where
  "match_at p pv n s =
     (case ms p (MState pv n s []) of
        [] \<Rightarrow> None
      | st # x \<Rightarrow> Some ((0, take (n - left st) s) # caps st, st))"

text \<open>
  \<open>re.sub(p, f, s)\<close>: the text is scanned from left to right; the leftmost match is
  replaced by what f makes of its match object, and the scan goes on behind the match
  (one character further when the match is empty).
\<close>

function sub_from :: "rx \<Rightarrow> (rmatch \<Rightarrow> ustring) \<Rightarrow> uchar option \<Rightarrow> nat \<Rightarrow> ustring \<Rightarrow> ustring" where
  "sub_from p f pv n s =
     (case match_at p pv n s of
        Some (m, st) \<Rightarrow>
          (if length (rest st) < length s
           then f m @ sub_from p f (prev st) (left st) (rest st)
           else (case s of
                   [] \<Rightarrow> f m
                 | c # cs \<Rightarrow> f m @ c # sub_from p f (Some c) (n - 1) cs))
      | None \<Rightarrow> (case s of [] \<Rightarrow> [] | c # cs \<Rightarrow> c # sub_from p f (Some c) (n - 1) cs))"
  by pat_completeness auto
termination
  by (relation "measure (\<lambda>(p, f, pv, n, s). length s)") auto

definition re_sub :: "rx \<Rightarrow> (rmatch \<Rightarrow> ustring) \<Rightarrow> ustring \<Rightarrow> ustring" where
  "re_sub p f s = sub_from p f None (length s) s"

text \<open>The same with a replacement function that may raise; the first exception ends it.\<close>

function sub_from_err ::
    "rx \<Rightarrow> (rmatch \<Rightarrow> py_error + ustring) \<Rightarrow> uchar option \<Rightarrow> nat \<Rightarrow> ustring \<Rightarrow> py_error + ustring" where
  "sub_from_err p f pv n s =
     (case match_at p pv n s of
        Some (m, st) \<Rightarrow>
          (case f m of
             Inl e \<Rightarrow> Inl e
           | Inr t \<Rightarrow>
               (if length (rest st) < length s
                then (case sub_from_err p f (prev st) (left st) (rest st) of
                        Inl e \<Rightarrow> Inl e | Inr out \<Rightarrow> Inr (t @ out))
                else (case s of
                        [] \<Rightarrow> Inr t
                      | c # cs \<Rightarrow> (case sub_from_err p f (Some c) (n - 1) cs of
                                     Inl e \<Rightarrow> Inl e | Inr out \<Rightarrow> Inr (t @ c # out)))))
      | None \<Rightarrow>
          (case s of
             [] \<Rightarrow> Inr []
           | c # cs \<Rightarrow> (case sub_from_err p f (Some c) (n - 1) cs of
                          Inl e \<Rightarrow> Inl e | Inr out \<Rightarrow> Inr (c # out))))"
  by pat_completeness auto
termination
  by (relation "measure (\<lambda>(p, f, pv, n, s). length s)") auto

definition re_sub_err :: "rx \<Rightarrow> (rmatch \<Rightarrow> py_error + ustring) \<Rightarrow> ustring \<Rightarrow> py_error + ustring" where
  "re_sub_err p f s = sub_from_err p f None (length s) s"

text \<open>\<open>re.search(p, s)\<close>: the leftmost match, or None.\<close>

fun search_from :: "rx \<Rightarrow> uchar option \<Rightarrow> nat \<Rightarrow> ustring \<Rightarrow> rmatch option" where
  "search_from p pv n [] = map_option fst (match_at p pv n [])"
| "search_from p pv n (c # cs) =
     (case match_at p pv n (c # cs) of
        Some (m, st) \<Rightarrow> Some m
      | None \<Rightarrow> search_from p (Some c) (n - 1) cs)"

definition re_search :: "rx \<Rightarrow> ustring \<Rightarrow> rmatch option" where
  "re_search p s = search_from p None (length s) s"

text \<open>\<open>re.findall(p, s)\<close> for a pattern without groups: the texts of the matches.\<close>

function findall_from :: "rx \<Rightarrow> uchar option \<Rightarrow> nat \<Rightarrow> ustring \<Rightarrow> ustring list" where
  "findall_from p pv n s =
     (case match_at p pv n s of
        Some (m, st) \<Rightarrow>
          (if length (rest st) < length s
           then gref m 0 # findall_from p (prev st) (left st) (rest st)
           else (case s of
                   [] \<Rightarrow> [gref m 0]
                 | c # cs \<Rightarrow> gref m 0 # findall_from p (Some c) (n - 1) cs))
      | None \<Rightarrow> (case s of [] \<Rightarrow> [] | c # cs \<Rightarrow> findall_from p (Some c) (n - 1) cs))"
  by pat_completeness auto
termination
  by (relation "measure (\<lambda>(p, pv, n, s). length s)") auto

definition re_findall :: "rx \<Rightarrow> ustring \<Rightarrow> ustring list" where
  "re_findall p s = findall_from p None (length s) s"

section \<open>convert.py\<close>

text \<open>
  Of ConvertToOSIS, the stages and passes below are embedded, each with the name it has
  in the source; a step \<open>osis = re.sub(...)\<close> of the source is a binding \<open>osis = re_sub ...\<close>
  here, in the same order. A pattern is written as \<open>re\<close> parses it: where alternatives
  begin with the same characters, these stand once, in front.
\<close>

subsection \<open>cvt_chapters_and_verses\<close>

text \<open>
  The program passes to \<open>re.sub\<close> replacement strings that it builds from text of the
  document (the numbers given by \<open>\cp\<close>, \<open>\ca\<close>, \<open>\vp\<close> and \<open>\va\<close>). \<open>re\<close> reads a backslash in
  such a string as the start of an escape. The model takes the text literally when it has
  no backslash and stops with Unmodelled when it has one.
\<close>

definition template_text :: "ustring \<Rightarrow> py_error + ustring" where
  "template_text t = (if bs \<in> set t then Inl Unmodelled else Inr t)"

definition and_then :: "py_error + 'a \<Rightarrow> ('a \<Rightarrow> py_error + 'b) \<Rightarrow> py_error + 'b" where
  "and_then r f = (case r of Inl e \<Rightarrow> Inl e | Inr x \<Rightarrow> f x)"

definition replace_chapter_number :: "rmatch \<Rightarrow> py_error + ustring" where
  "replace_chapter_number matchObject =
     (let ctext = gref matchObject 1;
          cp = re_search
            (seq [Str (bs # u ''cp''), plus True (In [CSpace]), Group 1 (plus False Dot), Look
             (Group 2 (In [CChar bs, CSpace]))]) ctext
      in and_then
           (case cp of
              None \<Rightarrow> Inr ctext
            | Some cpm \<Rightarrow>
                (let ctext = re_sub
                       (seq [Str (bs # u ''cp''), plus True (In [CSpace]), Group 1 (plus False
                        AnyChar), Look (Group 2 (In [CChar bs, CSpace]))])
                       (\<lambda>m. []) ctext;
                     cp = gref cpm 1
                 in and_then (template_text cp) (\<lambda>cp.
                      Inr (re_sub
                        (seq [Str (u ''\"$BOOK$.''), Group 1 (plus True (NotIn [CChar (ch CHR
                         ''\"''), CChar (ch CHR ''.'')])), Str (u ''\"'')])
                        (\<lambda>m. u ''\"$BOOK$.'' @ cp @ u ''\"'') ctext))))
           (\<lambda>ctext.
              (let ca = re_search
                     (seq [Str (bs # u ''ca''), plus True (In [CSpace]), Group 1 (plus False
                      Dot), Str (bs # u ''ca*'')]) ctext
               in case ca of
                    None \<Rightarrow> Inr ctext
                  | Some cam \<Rightarrow>
                      (let ctext = re_sub
                             (seq [Str (bs # u ''ca''), plus True (In [CSpace]), Group 1 (plus
                              False AnyChar), Str (bs # u ''ca*'')])
                             (\<lambda>m. []) ctext;
                           ca = gref cam 1
                       in and_then (template_text ca) (\<lambda>ca.
                            Inr (re_sub
                              (seq [Group 1 (seq [Str (u ''osisID=\"$BOOK$.''), plus True
                               (NotIn [CChar (ch CHR ''\"''), CChar (ch CHR ''.'')])]), Str (u
                               ''\"'')])
                              (\<lambda>m. gref m 1 @ u '' $BOOK$.'' @ ca @ u ''\"'') ctext))))))"

definition replace_verse_number :: "rmatch \<Rightarrow> py_error + ustring" where
  "replace_verse_number matchObject =
     (let vtext = gref matchObject 1;
          vp = re_search
            (seq [Str (bs # u ''vp''), plus True (In [CSpace]), Group 1 (plus False Dot), Str
             (bs # u ''vp*'')]) vtext
      in and_then
           (case vp of
              None \<Rightarrow> Inr vtext
            | Some vpm \<Rightarrow>
                (let vtext = re_sub
                       (seq [Str (bs # u ''vp''), plus True (In [CSpace]), Group 1 (plus False
                        AnyChar), Str (bs # u ''vp*'')])
                       (\<lambda>m. []) vtext;
                     vp = gref vpm 1
                 in and_then (template_text vp) (\<lambda>vp.
                      Inr (re_sub
                        (seq [Str (u ''\"$BOOK$.$CHAP$.''), Group 1 (plus True (NotIn [CChar
                         (ch CHR ''\"''), CChar (ch CHR ''.'')])), Str (u ''\"'')])
                        (\<lambda>m. u ''\"$BOOK$.$CHAP$.'' @ vp @ u ''\"'') vtext))))
           (\<lambda>vtext.
              (let va = re_search
                     (seq [Str (bs # u ''va''), plus True (In [CSpace]), Group 1 (plus False
                      Dot), Str (bs # u ''va*'')]) vtext
               in case va of
                    None \<Rightarrow> Inr vtext
                  | Some vam \<Rightarrow>
                      (let vtext = re_sub
                             (seq [Str (bs # u ''va''), plus True (In [CSpace]), Group 1 (plus
                              False AnyChar), Str (bs # u ''va*'')])
                             (\<lambda>m. []) vtext;
                           va = gref vam 1
                       in and_then (template_text va) (\<lambda>va.
                            Inr (re_sub
                              (seq [Group 1 (seq [Str (u ''osisID=\"$BOOK$.$CHAP$.''), plus
                               True (NotIn [CChar (ch CHR ''\"''), CChar (ch CHR ''.'')])]),
                               Str (u ''\"'')])
                              (\<lambda>m. gref m 1 @ u '' $BOOK$.$CHAP$.'' @ va @ u ''\"'') vtext))))))"

definition cvt_chapters_and_verses :: "ustring \<Rightarrow> bool \<Rightarrow> py_error + ustring" where
  "cvt_chapters_and_verses osis relaxed_conformance =
     (let osis = re_sub
            (seq [Str (bs # u ''c''), plus True (In [CSpace]), Group 1 (plus True (NotIn
             [CSpace])), WordB, Group 2 (plus False AnyChar), Look (Group 3 (alt [seq [Str (bs
             # u ''c''), plus True (In [CSpace])], Str (u ''</div type=\"book\"'')]))])
            (\<lambda>m. FDD1 # u ''<chapter osisID=\"$BOOK$.'' @ gref m 1 @ u
             ''\" sID=\"$BOOK$.'' @ gref m 1 @ u ''\"/>'' @ gref m 2 @ u
             ''<chapter eID=\"$BOOK$.'' @ gref m 1 @ u ''\"/>'' @ FDD3 # [nl]) osis
      in and_then
           (re_sub_err
             (Group 1 (seq [Str (u ''<chapter ''), plus True (NotIn [CChar (ch CHR ''<'')]),
              Str (u ''sID''), plus True (NotIn [CChar (ch CHR ''<'')]), Str (u ''/>''), plus
              False AnyChar, Str (u ''<chapter eID''), plus True (NotIn [CChar (ch CHR
              ''>'')]), Str (u ''/>'')]))
             replace_chapter_number osis)
           (\<lambda>osis.
              (let osis = re_sub
                     (seq [Str (bs # u ''cl''), plus True (In [CSpace]), Group 1 (plus True Dot)])
                     (\<lambda>m. FDD4 # u ''<title>'' @ gref m 1 @ u ''</title>'') osis;
                   osis = re_sub
                     (seq [Str (bs # u ''cd''), WordB, plus True (In [CSpace]), Group 1 (plus True Dot)])
                     (\<lambda>m. FDD4 # u ''<title type=\"x-description\">'' @ gref m 1 @ u
                      ''</title>'') osis;
                   osis = re_sub
                     (seq [Str (bs # u ''v''), plus True (In [CSpace]), Group 1 (plus True (NotIn
                      [CSpace])), WordB, Star True (In [CSpace]), Group 2 (plus False AnyChar), Look
                      (Group 3 (alt [seq [Str (bs # u ''v''), plus True (In [CSpace])], Str (u
                      ''</div type=\"book\"''), Str (u ''<chapter eID'')]))])
                     (\<lambda>m. FDD2 # u ''<verse osisID=\"$BOOK$.$CHAP$.'' @ gref m 1 @ u
                      ''\" sID=\"$BOOK$.$CHAP$.'' @ gref m 1 @ u ''\"/>'' @ gref m 2 @ u
                      ''<verse eID=\"$BOOK$.$CHAP$.'' @ gref m 1 @ u ''\"/>'' @ FDD2 # [nl]) osis
               in re_sub_err
                    (Group 1 (seq [Str (u ''<verse ''), plus True (NotIn [CChar (ch CHR
                     ''<'')]), Str (u ''sID''), plus True (NotIn [CChar (ch CHR ''<'')]), Str
                     (u ''/>''), plus False AnyChar, Str (u ''<verse eID''), plus True (NotIn
                     [CChar (ch CHR ''>'')]), Str (u ''/>'')]))
                    replace_verse_number osis)))"

subsection \<open>cvt_poetry\<close>



subsection \<open>cvt_spacing_and_breaks\<close>


subsection \<open>process_note, cvt_footnotes\<close>

definition process_note :: "ustring \<Rightarrow> ustring" where
  "process_note note =
     (let note = replace ([nl]) (u '' '') note;
          note = re_sub
            (seq [Str (bs # u ''fdc''), WordB, In [CSpace], Group 1 (plus False Dot), Str (bs #
             u ''fdc''), WordB, Str (u ''*'')])
            (\<lambda>m. u ''<seg editions=\"dc\">'' @ gref m 1 @ u ''</seg>'') note;
          note = re_sub
            (seq [Str (bs # u ''fq''), WordB, In [CSpace], Group 1 (plus False Dot), Look
             (Group 2 (alt [Str (bs # u ''f''), Str ([FDDF])]))])
            (\<lambda>m. FDDF # u ''<catchWord>'' @ gref m 1 @ u ''</catchWord>'') note;
          note = re_sub
            (seq [Str (bs # u ''fqa''), WordB, In [CSpace], Group 1 (plus False Dot), Look
             (Group 2 (alt [Str (bs # u ''f''), Str ([FDDF])]))])
            (\<lambda>m. FDDF # u ''<rdg type=\"alternate\">'' @ gref m 1 @ u ''</rdg>'') note;
          note = re_sub
            (seq [Str (bs # u ''ft''), In [CSpace]])
            (\<lambda>m. []) note;
          note = re_sub
            (seq [Str (bs # u ''fr''), WordB, In [CSpace], Group 1 (plus False Dot), Look
             (Group 2 (alt [Str (bs # u ''f''), Str ([FDDF])]))])
            (\<lambda>m. FDDF # u ''<reference type=\"annotateRef\">'' @ gref m 1 @ u
             ''</reference>'') note;
          note = re_sub
            (seq [Str (bs # u ''fk''), WordB, In [CSpace], Group 1 (plus False Dot), Look
             (Group 2 (alt [Str (bs # u ''f''), Str ([FDDF])]))])
            (\<lambda>m. FDDF # u ''<catchWord>'' @ gref m 1 @ u ''</catchWord>'') note;
          note = re_sub
            (seq [Str (bs # u ''fl''), WordB, In [CSpace], Group 1 (plus False Dot), Look
             (Group 2 (alt [Str (bs # u ''f''), Str ([FDDF])]))])
            (\<lambda>m. FDDF # u ''<label>'' @ gref m 1 @ u ''</label>'') note;
          note = re_sub
            (seq [Str (bs # u ''fp''), WordB, In [CSpace], Group 1 (plus False Dot), Look
             (Group 2 (alt [Str (bs # u ''fp''), Eol]))])
            (\<lambda>m. u ''<p>'' @ gref m 1 @ u ''</p>'') note;
          note = re_sub
            (seq [Group 1 (seq [Str (u ''<note''), WordB, Star False (NotIn [CChar (ch CHR
             ''>'')]), Str (u ''>'')]), Group 2 (Star False Dot), Str (u ''<p>'')])
            (\<lambda>m. gref m 1 @ u ''<p>'' @ gref m 2 @ u ''</p><p>'') note;
          note = re_sub
            (seq [Str (bs # u ''fv''), WordB, In [CSpace], Group 1 (plus False Dot), Look
             (Group 2 (alt [Str (bs # u ''f''), Str ([FDDF])]))])
            (\<lambda>m. FDDF # u ''<hi type=\"super\">'' @ gref m 1 @ u ''</hi>'') note;
          note = re_sub
            (seq [Str (bs # u ''f''), Group 1 (alt [Str (u ''q''), Str (u ''qa''), Str (u
             ''t''), Str (u ''r''), Str (u ''k''), Str (u ''l''), Str (u ''p''), Str (u
             ''v'')]), Str (u ''*'')])
            (\<lambda>m. []) note;
          note = replace ([FDDF]) ([]) note
      in note)"

text \<open>
  The \<open>n\<close> attribute that the replacement functions of \<open>\f\<close>, \<open>\fe\<close> and \<open>\x\<close> make of
  \<open>m.group(1)\<close>; when the group took no part in the match it is None, and the
  concatenation \<open>' n="' + None\<close> raises TypeError.
\<close>

definition note_n :: "ustring option \<Rightarrow> py_error + ustring" where
  "note_n g =
     (if g = Some (u ''-'') then Inr (u '' n=\"\"'')
      else if g = Some (u ''+'') then Inr []
      else (case g of None \<Rightarrow> Inl TypeError | Some c \<Rightarrow> Inr (u '' n=\"'' @ c @ u ''\"'')))"

definition cvt_footnotes :: "ustring \<Rightarrow> bool \<Rightarrow> py_error + ustring" where
  "cvt_footnotes osis relaxed_conformance =
     and_then
       (re_sub_err
         (seq [Str (bs # u ''f''), plus True (In [CSpace]), opt True (Group 1 (plus True (NotIn
          [CSpace, CChar bs]))), Star True (In [CSpace]), Group 2 (plus False AnyChar), Star
          True (In [CSpace]), Str (bs # u ''f*'')])
         (\<lambda>m. and_then (note_n (group m 1)) (\<lambda>n.
                Inr (u ''<note'' @ n @ u '' placement=\"foot\">'' @ gref m 2 @ FDDF # u ''</note>''))) osis)
       (\<lambda>osis. and_then
          (re_sub_err
            (seq [Str (bs # u ''fe''), plus True (In [CSpace]), Group 1 (plus False (NotIn
             [CSpace, CChar bs])), Star True (In [CSpace]), Group 2 (plus False AnyChar), Star
             True (In [CSpace]), Str (bs # u ''fe*'')])
            (\<lambda>m. and_then (note_n (group m 1)) (\<lambda>n.
                Inr (u ''<note'' @ n @ u '' placement=\"end\">'' @ gref m 2 @ FDDF # u ''</note>''))) osis)
          (\<lambda>osis.
             (let osis = re_sub
                    (Group 1 (seq [Str (u ''<note''), WordB, Star False (NotIn [CChar (ch CHR ''>'')]),
                     Str (u ''>''), Star False AnyChar, Str (u ''</note>'')]))
                    (\<lambda>m. process_note (gref m 1)) osis;
                  osis = re_sub
                    (seq [Str (bs # u ''fm''), WordB, In [CSpace], Group 1 (plus False Dot), Str (bs #
                     u ''fm*'')])
                    (\<lambda>m. u ''<hi type=\"super\">'' @ gref m 1 @ u ''</hi>'') osis
              in Inr osis)))"

subsection \<open>process_xref, cvt_cross_references\<close>

definition process_xref :: "bool \<Rightarrow> ustring \<Rightarrow> ustring" where
  "process_xref relaxed_conformance note =
     (let note = replace ([nl]) (u '' '') note;
          note = re_sub
            (seq [Str (bs # u ''xot''), WordB, In [CSpace], Group 1 (plus False Dot), Str (bs #
             u ''xot''), WordB, Str (u ''*'')])
            (\<lambda>m. FDDF # u ''<seg editions=\"ot\">'' @ gref m 1 @ u ''</seg>'') note;
          note = re_sub
            (seq [Str (bs # u ''xnt''), WordB, In [CSpace], Group 1 (plus False Dot), Str (bs #
             u ''xnt''), WordB, Str (u ''*'')])
            (\<lambda>m. FDDF # u ''<seg editions=\"nt\">'' @ gref m 1 @ u ''</seg>'') note;
          note = re_sub
            (seq [Str (bs # u ''xdc''), WordB, In [CSpace], Group 1 (plus False Dot), Str (bs #
             u ''xdc''), WordB, Str (u ''*'')])
            (\<lambda>m. FDDF # u ''<seg editions=\"dc\">'' @ gref m 1 @ u ''</seg>'') note;
          note = re_sub
            (seq [Str (bs # u ''xq''), WordB, In [CSpace], Group 1 (plus False Dot), Look
             (Group 2 (alt [Str (bs # u ''x''), Str ([FDDF])]))])
            (\<lambda>m. FDDF # u ''<catchWord>'' @ gref m 1 @ u ''</catchWord>'') note;
          note = re_sub
            (seq [Str (bs # u ''xo''), WordB, In [CSpace], Group 1 (plus False Dot), Look
             (Group 2 (alt [Str (bs # u ''x''), Str ([FDDF])]))])
            (\<lambda>m. FDDF # u ''<reference type=\"annotateRef\">'' @ gref m 1 @ u
             ''</reference>'') note;
          note = re_sub
            (seq [Str (bs # u ''xk''), WordB, In [CSpace], Group 1 (plus False Dot), Look
             (Group 2 (alt [Str (bs # u ''x''), Str ([FDDF])]))])
            (\<lambda>m. FDDF # u ''<catchWord>'' @ gref m 1 @ u ''</catchWord>'') note;
          note = re_sub
            (seq [Str (bs # u ''xt''), WordB, In [CSpace], Group 1 (plus False Dot), Look
             (Group 2 (alt [Str (bs # u ''x''), Str ([FDDF])]))])
            (\<lambda>m. FDDF # u ''<reference>'' @ gref m 1 @ u ''</reference>'') note;
          note = (if relaxed_conformance
                  then (let note = re_sub
                              (seq [Str (bs # u ''xtSee''), WordB, In [CSpace], Group 1 (plus False Dot), Str (bs
                               # u ''xtSee''), WordB, Str (u ''*'')])
                              (\<lambda>m. FDDF # u ''<reference osisRef=\"'' @ gref m 1 @ u ''\">See: '' @ gref
                               m 1 @ u ''</reference>'') note;
                            note = re_sub
                              (seq [Str (bs # u ''xtSeeAlso''), WordB, In [CSpace], Group 1 (plus False Dot), Str
                               (bs # u ''xtSeeAlso''), WordB, Str (u ''*'')])
                              (\<lambda>m. FDDF # u ''<reference osisRef=\"'' @ gref m 1 @ u ''\">See also: '' @
                               gref m 1 @ u ''</reference>'') note
                        in note)
                  else note);
          note = re_sub
            (seq [Str (bs # u ''x''), Group 1 (In (cchars [ch CHR ''q'', ch CHR ''t'', ch CHR
             ''o'', ch CHR ''k''])), Str (u ''*'')])
            (\<lambda>m. []) note;
          note = replace ([FDDF]) ([]) note
      in note)"

definition cvt_cross_references :: "ustring \<Rightarrow> bool \<Rightarrow> py_error + ustring" where
  "cvt_cross_references osis relaxed_conformance =
     and_then
       (re_sub_err
         (seq [Str (bs # u ''x''), plus True (In [CSpace]), Group 1 (plus False (NotIn
          [CSpace])), plus True (In [CSpace]), Group 2 (plus False AnyChar), Star True (In
          [CSpace]), Str (bs # u ''x*'')])
         (\<lambda>m. and_then (note_n (group m 1)) (\<lambda>n.
                Inr (u ''<note'' @ n @ u '' type=\"crossReference\">'' @ gref m 2 @ FDDF # u ''</note>''))) osis)
       (\<lambda>osis.
          (let osis = re_sub
                 (Group 1 (seq [Str (u ''<note ''), Star False (NotIn [CChar (ch CHR ''>'')]), Str
                  (u ''type=\"crossReference\"''), Star True (NotIn [CChar (ch CHR ''>'')]), Str (u
                  ''>''), Star False AnyChar, Str (u ''</note>'')]))
                 (\<lambda>m. process_xref relaxed_conformance (gref m 1)) osis
           in Inr osis))"

subsection \<open>process_osisIDs\<close>

text \<open>
  \<open>str(n)\<close> of a natural number, and \<open>int(s)\<close> of a string of ASCII digits (the only
  strings the program gives it; for any other string the model raises ValueError).
\<close>

function str_of_nat :: "nat \<Rightarrow> ustring" where
  "str_of_nat n = (if n < 10 then [48 + n] else str_of_nat (n div 10) @ [48 + n mod 10])"
  by pat_completeness auto
termination
  by (relation "measure id") auto

definition py_int :: "ustring \<Rightarrow> py_error + nat" where
  "py_int s = (if s \<noteq> [] \<and> list_all isdigit s then Inr (decimal s) else Inl ValueError)"

definition item :: "'a list \<Rightarrow> nat \<Rightarrow> py_error + 'a" where
  "item xs i = (if i < length xs then Inr (xs ! i) else Inl IndexError)"

definition expand_range :: "ustring \<Rightarrow> py_error + ustring" where
  "expand_range v_range =
     (let v_range = re_findall (plus True (In [CDigit])) v_range
      in and_then (item v_range 0) (\<lambda>lo. and_then (py_int lo) (\<lambda>lo.
         and_then (item v_range 1) (\<lambda>hi. and_then (py_int hi) (\<lambda>hi.
           (let osisID = map (\<lambda>n. u ''$BOOK$.$CHAP$.'' @ str_of_nat n) [lo..<hi + 1]
            in Inr (join (u '' '') osisID)))))))"

definition expand_series :: "ustring \<Rightarrow> ustring" where
  "expand_series v_series =
     (let v_series = re_findall (plus True (In [CDigit])) v_series;
          osisID = map (\<lambda>n. u ''$BOOK$.$CHAP$.'' @ n) v_series
      in join (u '' '') osisID)"

text \<open>
  The body of the loop over the chapter chunks, and that of the loop over the book chunks.
\<close>

definition fill_chapter :: "ustring \<Rightarrow> ustring" where
  "fill_chapter cc =
     (let chap_value = re_search
            (seq [Str (u ''<chapter osisID=\"''), plus True (NotIn [CChar (ch CHR ''.''), CChar
             (ch CHR ''\"'')]), Str (u ''.''), Group 1 (plus True (NotIn [CChar (ch CHR
             ''\"'')]))]) cc
      in case chap_value of
           Some m \<Rightarrow> replace (u ''$CHAP$'') (gref m 1) cc
         | None \<Rightarrow> cc)"

definition fill_book :: "ustring \<Rightarrow> ustring" where
  "fill_book bc =
     (let book_value = re_search
            (seq [Str (u ''<div type=\"book\" osisID=\"''), Group 1 (plus False (NotIn [CChar
             (ch CHR ''\"'')])), Str (u ''\"'')]) bc
      in case book_value of
           Some m \<Rightarrow>
             (let bc = replace (u ''$BOOK$'') (gref m 1) bc;
                  chap_chunks = split [FDD1] bc
              in concat (map fill_chapter chap_chunks))
         | None \<Rightarrow> bc)"

definition process_osisIDs :: "ustring \<Rightarrow> py_error + ustring" where
  "process_osisIDs osis =
     and_then
       (re_sub_err
         (seq [Str (u ''$BOOK$.$CHAP$.''), Group 1 (seq [plus True (In [CDigit]), Str (u
          ''-''), plus True (In [CDigit])]), Str (u ''\"'')])
         (\<lambda>m. and_then (expand_range (gref m 1)) (\<lambda>ids. Inr (ids @ u ''\"''))) osis)
       (\<lambda>osis.
          (let osis = re_sub
                 (seq [Str (u ''$BOOK$.$CHAP$.''), Group 1 (seq [plus True (In [CDigit]), plus True
                  (Group 2 (seq [Str (u '',''), plus True (In [CDigit])]))]), Str (u ''\"'')])
                 (\<lambda>m. expand_series (gref m 1) @ u ''\"'') osis;
               book_chunks = split [FDD0] osis
           in Inr (concat (map fill_book book_chunks))))"

subsection \<open>osis_reorder_and_cleanup and the end of ConvertToOSIS\<close>

definition non_characters :: ustring where
  "non_characters =
     [FDD0, FDD1, FDD2, FDD3, FDD4, FDD5, FDD6, FDD7, FDD8, FDD9, FDDA, FDDB,
       FDDC, FDDD, FDDE, FDDF, FDE0, FDE1, FDE2, FDE3, FDE4, FDE5, FDE6, FDE7,
       FDE8, FDE9, FDEA, FDEB, FDEC, FDED, FDEE, FDEF]"

text \<open>
  The body of the loop \<open>for end_block in [...]\<close>.
\<close>

definition end_block_cleanup :: "ustring \<Rightarrow> ustring \<Rightarrow> ustring" where
  "end_block_cleanup osis end_block =
     (let osis = re_sub
            (seq [plus True (In [CSpace]), Str (u ''</'' @ end_block @ u ''>'')])
            (\<lambda>m. u ''</'' @ end_block @ u ''>'' @ [nl]) osis;
          osis = re_sub
            (seq [plus True (In [CSpace]), Str (u ''<'' @ end_block),
             Group 1 (seq [Str (u '' eID=''), plus True (NotIn [CChar (ch CHR ''/''), CChar (ch CHR ''>'')]), Str (u ''/>'')])])
            (\<lambda>m. u ''<'' @ end_block @ gref m 1 @ [nl]) osis
      in osis)"

definition osis_reorder_and_cleanup :: "ustring \<Rightarrow> ustring" where
  "osis_reorder_and_cleanup osis =
     (let osis = re_sub
            (seq [Group 1 (seq [Str (FDD3 # u ''<chapter eID=''), plus False Dot, Str ([nl])]),
             Group 2 (seq [Str (u ''<verse eID=''), plus False Dot, Str (u ''>'' @ [FDD2])]),
             opt True (Str ([nl]))])
            (\<lambda>m. gref m 2 @ [nl] @ gref m 1) osis;
          osis = re_sub
            (seq [Group 1 (seq [In (cchars [FDD5, FDD6, FDD7, FDD8, FDD9]), Str (u
             ''</div>'')]), Group 2 (seq [Star True (NotIn (cchars [FDD5, FDD6, FDD7, FDD8,
             FDD9])), Str (u ''<chapter eID''), plus False Dot, Str (u ''>'')])])
            (\<lambda>m. gref m 2 @ gref m 1) osis;
          osis = re_sub
            (seq [Group 1 (seq [Str (FDD3 # u ''</p>''), opt True (Str ([nl])), Str (FDD3 # u
             ''<p>'')]), opt True (Str ([nl])), Group 2 (seq [Str (u ''<verse eID=''), plus
             False Dot, Str (u ''>'' @ [FDD2])]), opt True (Str ([nl]))])
            (\<lambda>m. gref m 2 @ [nl] @ gref m 1 @ [nl]) osis;
          osis = re_sub
            (seq [Str ([nl]), Group 1 (seq [Str (u ''<verse eID=''), plus False Dot, Str (u
             ''>'' @ [FDD2])])])
            (\<lambda>m. gref m 1 @ [nl]) osis;
          osis = re_sub
            (seq [Star True (Str ([nl])), Group 1 (seq [Str (u ''<l''), plus False Dot, Str (u
             ''>'')]), Group 2 (seq [Str (u ''<verse eID=''), plus False Dot, Str (u ''>''),
             Star True (In [CChar FDD2, CChar nl]), Str (u ''<verse osisID=''), plus False Dot,
             Str (u ''>'')])])
            (\<lambda>m. gref m 2 @ gref m 1) osis;
          osis = re_sub
            (seq [Group 1 (Str (u ''</l>'')), Group 2 (seq [Str (u ''<note ''), plus False Dot,
             Str (u ''</note>'')])])
            (\<lambda>m. gref m 2 @ gref m 1) osis;
          osis = re_sub
            (seq [Group 1 (seq [Str (u ''</''), plus True (NotIn [CSpace, CChar (ch CHR
             ''>'')])]), Str (u '' ''), Star True (NotIn [CChar (ch CHR ''>'')]), Str (u
             ''>'')])
            (\<lambda>m. gref m 1 @ u ''>'') osis;
          osis = replace (u ''<lb type=\"x-p\"/>'') (u ''<lb/>'') osis;
          osis = foldl (\<lambda>osis c. replace [c] [] osis) osis non_characters;
          osis = foldl end_block_cleanup osis
            [u ''p'', u ''div'', u ''note'', u ''l'', u ''lg'', u ''chapter'', u
              ''verse'', u ''head'', u ''title'', u ''item'', u ''list''];
          osis = re_sub
            (seq [plus True (Str (u '' '')), Group 1 (plus True (Group 2 (seq [Str (u ''</''),
             plus True (NotIn [CChar (ch CHR ''>'')]), Str (u ''>'')]))), Star True (Str (u
             '' ''))])
            (\<lambda>m. gref m 1 @ u '' '') osis;
          osis = re_sub
            (seq [Str (u '' ''), plus True (Str (u '' ''))])
            (\<lambda>m. u '' '') osis;
          osis = re_sub
            (seq [opt True (Str (u '' '')), Str ([nl]), plus True (Str ([nl]))])
            (\<lambda>m. [nl]) osis
      in osis)"

text \<open>
  What ConvertToOSIS does to the text that process_osisIDs has returned, up to its
  \<open>return osis\<close>: the cleanup pass, then the loop that changes the type of the special
  books. SPECIAL_BOOKS comes from the module bookdata and is a parameter. (The debug
  branch that follows the loop only prints.)
\<close>

definition special_book :: "ustring \<Rightarrow> ustring \<Rightarrow> ustring" where
  "special_book osis sb =
     replace (u ''<div type=\"book\" osisID=\"'' @ sb @ u ''\">'')
             (u ''<div type=\"'' @ lower sb @ u ''\">'') osis"

definition ConvertToOSIS_end :: "ustring list \<Rightarrow> ustring \<Rightarrow> ustring" where
  "ConvertToOSIS_end SPECIAL_BOOKS osis =
     (let osis = osis_reorder_and_cleanup osis;
          osis = foldl special_book osis SPECIAL_BOOKS
      in osis)"


section \<open>Sample data\<close>

text \<open>A small instance of the two tables of bookdata, and a list of file names.\<close>

definition sample_files :: "ustring \<rightharpoonup> ustring" where
  "sample_files = [u ''gen.usfm'' \<mapsto> u ''Gen'', u ''exo.usfm'' \<mapsto> u ''Exod'',
                   u ''mat.usfm'' \<mapsto> u ''Matt'']"

definition sample_canon :: "ustring list" where
  "sample_canon = [u ''Gen'', u ''Exod'', u ''Lev'', u ''Matt'']"

definition sample_input :: "ustring list" where
  "sample_input = [u ''zzz.usfm'', u ''mat.usfm'', u ''exo.usfm'', u ''aaa.usfm'', u ''gen.usfm'']"

section \<open>Predicates used in the proofs\<close>

text \<open>All characters of a string, of the text and groups of a matcher state, and of the
  groups of a match object, lie in the set A.\<close>

definition all_in :: "uchar set \<Rightarrow> ustring \<Rightarrow> bool" where
  "all_in A s = (set s \<subseteq> A)"

definition chars_in :: "uchar set \<Rightarrow> mstate \<Rightarrow> bool" where
  "chars_in A st = (set (rest st) \<subseteq> A \<and> list_all (\<lambda>(g, t). set t \<subseteq> A) (caps st))"

definition groups_in :: "uchar set \<Rightarrow> rmatch \<Rightarrow> bool" where
  "groups_in A m = list_all (\<lambda>(g, t). set t \<subseteq> A) m"


section \<open>Properties of sort.py\<close>

subsection \<open>The stable sort\<close>

lemma insort_by_less: "insort_by (<) f x ys = insort_key f x ys"
  by (induction ys) auto

lemma sorted_by_less: "sorted_by (<) f xs = sort_key f xs"
  by (induction xs) (simp_all add: sorted_by_def insort_by_less)

lemma insort_key_append_ge:
  "\<forall>b\<in>set B. f x \<le> f b \<Longrightarrow> insort_key f x (A @ B) = insort_key f x A @ B"
  by (induction A) (auto simp: insort_is_Cons)

lemma insort_key_append_mid:
  "\<forall>a\<in>set A. f a < f x \<Longrightarrow> \<forall>b\<in>set B. f x \<le> f b \<Longrightarrow> insort_key f x (A @ B) = A @ x # B"
  by (induction A) (auto simp: insort_is_Cons)

lemma sort_key_split_top:
  fixes k :: "'a \<Rightarrow> enat"
  shows "sort_key k xs = sort_key k (filter (\<lambda>x. k x \<noteq> \<infinity>) xs) @ filter (\<lambda>x. k x = \<infinity>) xs"
proof (induction xs)
  case Nil
  then show ?case by simp
next
  case (Cons x xs)
  show ?case
  proof (cases "k x = \<infinity>")
    case True
    have "insort_key k x (sort_key k (filter (\<lambda>x. k x \<noteq> \<infinity>) xs) @ filter (\<lambda>x. k x = \<infinity>) xs)
        = sort_key k (filter (\<lambda>x. k x \<noteq> \<infinity>) xs) @ x # filter (\<lambda>x. k x = \<infinity>) xs"
      by (rule insort_key_append_mid) (auto simp: True less_top[symmetric])
    then show ?thesis using Cons True by simp
  next
    case False
    have "insort_key k x (sort_key k (filter (\<lambda>x. k x \<noteq> \<infinity>) xs) @ filter (\<lambda>x. k x = \<infinity>) xs)
        = insort_key k x (sort_key k (filter (\<lambda>x. k x \<noteq> \<infinity>) xs)) @ filter (\<lambda>x. k x = \<infinity>) xs"
      by (rule insort_key_append_ge) auto
    then show ?thesis using Cons False by simp
  qed
qed

lemma keys_of_total:
  "\<forall>x\<in>set xs. f x = Inr (k x) \<Longrightarrow> keys_of f xs = Inr (map (\<lambda>x. (k x, x)) xs)"
  by (induction xs) auto

lemma index_mem: "b \<in> set C \<Longrightarrow> \<exists>i. index C b = Inr i"
  by (induction C) auto

lemma sort_key_fst_map: "map snd (sort_key fst (map (\<lambda>x. (k x, x)) xs)) = sort_key k xs"
proof (induction xs)
  case Nil show ?case by simp
next
  case (Cons x xs)
  have *: "map snd (insort_key fst (k x, x) ys) = insort_key k x (map snd ys)" if "\<forall>p\<in>set ys. fst p = k (snd p)" for ys
    using that by (induction ys) auto
  have "\<forall>p\<in>set (sort_key fst (map (\<lambda>x. (k x, x)) xs)). fst p = k (snd p)" by auto
  from *[OF this] Cons show ?case by simp
qed

lemma sorted_map_enat: "sorted (map (\<lambda>x. enat (g x)) xs) = sorted (map g xs)"
  by (induction xs) auto

lemma insort_by_front: "\<forall>y\<in>set ys. \<not> lt (f y) (f x) \<Longrightarrow> insort_by lt f x ys = x # ys"
  by (cases ys) auto

lemma sorted_by_increasing:
  fixes f :: "'a \<Rightarrow> nat"
  shows "sorted_wrt (<) (map f xs) \<Longrightarrow> sorted_by (<) f xs = xs"
proof (induction xs)
  case Nil
  show ?case by (simp add: sorted_by_def)
next
  case (Cons x xs)
  then have "sorted_by (<) f xs = xs" by simp
  moreover have "insort_by (<) f x xs = x # xs"
    using Cons.prems by (intro insort_by_front) (auto dest: less_asym)
  ultimately show ?case by (simp add: sorted_by_def)
qed

lemma sorted_zip_upt: "length xs = n \<Longrightarrow> sorted_wrt (<) (map fst (zip [a..<a + n] xs))"
  by (simp del: upt_Suc)

subsection \<open>key_canon\<close>

text \<open>
  Claim C7. Sorting file names with key_canon, when the book of every file name found in
  FILENAME_TO_OSIS is in CANONICAL_ORDER: the file names found in the lookup come first,
  ordered by the position of their book in CANONICAL_ORDER; every file name that is not
  found has the key infinity and comes after all of them, and these file names keep the
  order in which they were given.
\<close>

theorem key_canon_sort:
  assumes known: "\<forall>f\<in>set files. \<forall>b. T f = Some b \<longrightarrow> b \<in> set C"
  shows "\<exists>recognized.
           sorted_canon T C files = Inr (recognized @ filter (\<lambda>f. T f = None) files)
         \<and> mset recognized = mset (filter (\<lambda>f. T f \<noteq> None) files)
         \<and> sorted (map (\<lambda>f. canon_position C (the (T f))) recognized)
         \<and> (\<forall>f\<in>set files. T f = None \<longrightarrow> key_canon T C f = Inr \<infinity>)"
proof -
  define k where "k f = (case T f of Some b \<Rightarrow> enat (canon_position C b) | None \<Rightarrow> \<infinity>)" for f
  have key: "key_canon T C f = Inr (k f)" if "f \<in> set files" for f
  proof (cases "T f")
    case None
    then show ?thesis by (simp add: key_canon_def k_def)
  next
    case (Some b)
    from bspec [OF known that] Some have "b \<in> set C" by simp
    from index_mem [OF this] obtain i where "index C b = Inr i" ..
    with Some show ?thesis by (simp add: key_canon_def k_def canon_position_def)
  qed
  have fin: "(k f \<noteq> \<infinity>) = (T f \<noteq> None)" for f
    by (auto simp: k_def split: option.splits)
  have fin2: "(k f = \<infinity>) = (T f = None)" for f
    by (auto simp: k_def split: option.splits)
  let ?rec = "sort_key k (filter (\<lambda>f. T f \<noteq> None) files)"
  have "keys_of (key_canon T C) files = Inr (map (\<lambda>f. (k f, f)) files)"
    by (rule keys_of_total) (simp add: key)
  then have "sorted_canon T C files = Inr (sort_key k files)"
    by (simp add: sorted_canon_def sorted_by_less sort_key_fst_map)
  also have "sort_key k files = ?rec @ filter (\<lambda>f. T f = None) files"
    unfolding fin[symmetric] fin2[symmetric] by (rule sort_key_split_top)
  finally have 1: "sorted_canon T C files = Inr (?rec @ filter (\<lambda>f. T f = None) files)" .
  have 2: "mset ?rec = mset (filter (\<lambda>f. T f \<noteq> None) files)" by simp
  have e: "map k ?rec = map (\<lambda>f. enat (canon_position C (the (T f)))) ?rec"
    by (rule map_cong) (auto simp: k_def)
  have "sorted (map k ?rec)" by (rule sorted_sort_key)
  then have 3: "sorted (map (\<lambda>f. canon_position C (the (T f))) ?rec)"
    unfolding e by (simp only: sorted_map_enat)
  have 4: "\<forall>f\<in>set files. T f = None \<longrightarrow> key_canon T C f = Inr \<infinity>"
    by (simp add: key_canon_def)
  show ?thesis
    by (rule exI[of _ ?rec]) (intro conjI 1 2 3 4)
qed


text \<open>
  The files of Matthew, Exodus and Genesis given in reverse order, among two file names
  that the lookup does not know.
\<close>

lemma sample_run:
  "sorted_canon sample_files sample_canon sample_input
     = Inr [u ''gen.usfm'', u ''exo.usfm'', u ''mat.usfm'', u ''zzz.usfm'', u ''aaa.usfm'']"
  by (simp add: sorted_canon_def key_canon_def sample_files_def sample_canon_def sample_input_def u_def sorted_by_def)

theorem key_canon_sort_witness:
  "(\<exists>recognized.
           sorted_canon sample_files sample_canon sample_input = Inr (recognized @ [u ''zzz.usfm'', u ''aaa.usfm''])
         \<and> mset recognized = mset [u ''mat.usfm'', u ''exo.usfm'', u ''gen.usfm''])
   \<and> sorted_canon sample_files sample_canon sample_input
       = Inr [u ''gen.usfm'', u ''exo.usfm'', u ''mat.usfm'', u ''zzz.usfm'', u ''aaa.usfm'']"
proof -
  have h: "\<forall>f\<in>set sample_input. \<forall>b. sample_files f = Some b \<longrightarrow> b \<in> set sample_canon"
    by (simp add: sample_files_def sample_canon_def sample_input_def u_def)
  have f1: "filter (\<lambda>f. sample_files f = None) sample_input = [u ''zzz.usfm'', u ''aaa.usfm'']"
    by (simp add: sample_files_def sample_input_def u_def)
  have f2: "filter (\<lambda>f. sample_files f \<noteq> None) sample_input = [u ''mat.usfm'', u ''exo.usfm'', u ''gen.usfm'']"
    by (simp add: sample_files_def sample_input_def u_def)
  from key_canon_sort [OF h] obtain r where
    "sorted_canon sample_files sample_canon sample_input = Inr (r @ filter (\<lambda>f. sample_files f = None) sample_input)"
    "mset r = mset (filter (\<lambda>f. sample_files f \<noteq> None) sample_input)"
    by auto
  then have "\<exists>recognized.
           sorted_canon sample_files sample_canon sample_input = Inr (recognized @ [u ''zzz.usfm'', u ''aaa.usfm''])
         \<and> mset recognized = mset [u ''mat.usfm'', u ''exo.usfm'', u ''gen.usfm'']"
    unfolding f1 f2 by (intro exI[of _ r] conjI)
  with sample_run show ?thesis by (intro conjI)
qed
subsection \<open>key_natural\<close>






subsection \<open>key_supplied\<close>

lemma supplied_keys_eq:
  "supplied_keys st xs =
     (zip [Suc (counter_value st)..<Suc (counter_value st) + length xs] xs,
      if xs = [] then st else Some (counter_value st + length xs))"
proof (induction xs arbitrary: st)
  case Nil
  show ?case by simp
next
  case (Cons x xs)
  let ?c = "counter_value st"
  have m: "[Suc ?c..<Suc ?c + length (x # xs)] = Suc ?c # [Suc (Suc ?c)..<Suc (Suc ?c) + length xs]"
    by (simp add: upt_conv_Cons del: upt_Suc)
  have k: "key_supplied st x = (Suc ?c, Some (Suc ?c))"
    by (simp add: key_supplied_def counter_value_def Let_def)
  have c: "counter_value (Some (Suc ?c)) = Suc ?c"
    by (simp add: counter_value_def)
  show ?case
    unfolding m using Cons [of "Some (Suc ?c)"]
    by (simp add: k c del: upt_Suc)
qed

text \<open>
  Claim C9, as amended. From any state of the counter, a sorting run with key_supplied
  gives the items the keys c + 1, c + 2, ... in the order of the calls, c being the value
  the counter had before the run (0 when the attribute does not exist yet); the items
  come out in the order supplied; and the counter is left at c plus the number of items:
  it is never reset.
\<close>

theorem key_supplied_run:
  "sorted_supplied st items =
     ([Suc (counter_value st)..<Suc (counter_value st) + length items], items,
      if items = [] then st else Some (counter_value st + length items))"
proof -
  let ?ks = "zip [Suc (counter_value st)..<Suc (counter_value st) + length items] items"
  have "sorted_by (<) fst ?ks = ?ks"
    by (rule sorted_by_increasing, rule sorted_zip_upt, rule refl)
  then show ?thesis
    by (simp add: sorted_supplied_def supplied_keys_eq del: upt_Suc)
qed

text \<open>
  The claim C9 as stated fails: the same two items get the keys 1, 2 in a first run and
  2, 3 in a run that follows the sorting of one other item.
\<close>

theorem key_supplied_not_reset:
  "fst (sorted_supplied None [u ''a'', u ''b'']) = [1, 2]
   \<and> fst (sorted_supplied (snd (snd (sorted_supplied None [u ''x'']))) [u ''a'', u ''b'']) = [2, 3]"
  by (simp add: sorted_supplied_def key_supplied_def counter_value_def sorted_by_def Let_def)

section \<open>Properties of the matcher\<close>

text \<open>
  The recursive equations of the scanning functions are used one unfolding at a time.
\<close>

declare sub_from.simps [simp del] sub_from_err.simps [simp del] findall_from.simps [simp del]
  replace.simps [simp del] split_from.simps [simp del] str_of_nat.simps [simp del]
  ms.simps(9) [simp del]

lemmas ms_Star = ms.simps(9)

subsection \<open>The characters of a result\<close>

lemma chars_in_eat: "chars_in A st \<Longrightarrow> st' \<in> set (eat w st) \<Longrightarrow> chars_in A st'"
proof (induction w st rule: eat.induct)
  case (3 c w p n d r k)
  then show ?case by (auto simp: chars_in_def split: if_splits)
qed auto

lemma chars_in_one: "chars_in A st \<Longrightarrow> st' \<in> set (one P st) \<Longrightarrow> chars_in A st'"
  by (induction P st rule: one.induct) (auto simp: chars_in_def split: if_splits)

lemma chars_in_set_cap: "chars_in A st \<Longrightarrow> chars_in A st' \<Longrightarrow> chars_in A (set_cap g st st')"
  by (auto simp: chars_in_def set_cap_def dest: in_set_takeD)

lemma chars_in_ms: "chars_in A st \<Longrightarrow> st' \<in> set (ms r st) \<Longrightarrow> chars_in A st'"
proof (induction r st arbitrary: st' rule: ms.induct)
  case (1 st)
  then show ?case by simp
next
  case (2 w st)
  then show ?case using chars_in_eat [of A st st' w] by simp
next
  case (3 items st)
  then show ?case using chars_in_one [of A st st'] by simp
next
  case (4 items st)
  then show ?case using chars_in_one [of A st st'] by simp
next
  case (5 st)
  then show ?case using chars_in_one [of A st st'] by simp
next
  case (6 st)
  then show ?case using chars_in_one [of A st st'] by simp
next
  case (7 a b st)
  from "7.prems"(2) obtain x where x: "x \<in> set (ms a st)" "st' \<in> set (ms b x)"
    by auto
  from "7.IH"(1) [OF "7.prems"(1) x(1)] have "chars_in A x" .
  from "7.IH"(2) [OF x(1) this x(2)] show ?case .
next
  case (8 a b st)
  from "8.prems"(2) have "st' \<in> set (ms a st) \<or> st' \<in> set (ms b st)" by simp
  then show ?case using "8.IH" "8.prems"(1) by blast
next
  case (9 greedy r st)
  have "set (ms (Star greedy r) st)
          \<subseteq> insert st (\<Union>x\<in>set (ms r st). if left x < left st then set (ms (Star greedy r) x) else {})"
    by (subst ms_Star) (auto simp: Let_def)
  with "9.prems"(2) have "st' = st \<or> (\<exists>x\<in>set (ms r st). left x < left st \<and> st' \<in> set (ms (Star greedy r) x))"
    by (auto split: if_splits)
  then show ?case
  proof
    assume "st' = st"
    with "9.prems" show ?thesis by simp
  next
    assume "\<exists>x\<in>set (ms r st). left x < left st \<and> st' \<in> set (ms (Star greedy r) x)"
    then obtain x where x: "x \<in> set (ms r st)" "left x < left st" "st' \<in> set (ms (Star greedy r) x)"
      by auto
    from "9.IH"(1) [OF "9.prems"(1) x(1)] have "chars_in A x" .
    from "9.IH"(2) [OF x(1) x(2) this x(3)] show ?thesis .
  qed
next
  case (10 g r st)
  from "10.prems"(2) obtain x where x: "x \<in> set (ms r st)" "st' = set_cap g st x"
    by auto
  from "10.IH" [OF "10.prems"(1) x(1)] have "chars_in A x" .
  with "10.prems"(1) x(2) show ?case by (simp add: chars_in_set_cap)
next
  case (11 r st)
  show ?case
  proof (cases "ms r st")
    case Nil
    with "11.prems" show ?thesis by simp
  next
    case (Cons y ys)
    with "11.IH" [OF "11.prems"(1), of y] have "chars_in A y" by simp
    with Cons "11.prems" show ?thesis by (simp add: chars_in_def)
  qed
next
  case (12 r st)
  then show ?case by (cases "ms r st") simp_all
next
  case (13 st)
  then show ?case by (simp split: if_splits)
next
  case (14 st)
  then show ?case by (simp split: if_splits)
qed

lemma gref_chars:
  "list_all (\<lambda>(g, t). set t \<subseteq> A) m \<Longrightarrow> set (gref m g) \<subseteq> A"
  by (induction m) (auto simp: gref_def split: option.splits if_splits)

lemma match_at_chars:
  assumes "set s \<subseteq> A" "match_at p pv n s = Some (m, st)"
  shows "list_all (\<lambda>(g, t). set t \<subseteq> A) m \<and> set (rest st) \<subseteq> A"
proof -
  from assms(2) obtain x where ms: "ms p (MState pv n s []) = st # x"
    and m: "m = (0, take (n - left st) s) # caps st"
    by (auto simp: match_at_def split: list.splits)
  have "chars_in A (MState pv n s [])" using assms(1) by (simp add: chars_in_def)
  moreover have "st \<in> set (ms p (MState pv n s []))" using ms by simp
  ultimately have "chars_in A st" by (rule chars_in_ms)
  with assms(1) m show ?thesis by (auto simp: chars_in_def dest: in_set_takeD)
qed

lemma sub_from_chars:
  "(\<And>m. list_all (\<lambda>(g, t). set t \<subseteq> A) m \<Longrightarrow> set (f m) \<subseteq> A) \<Longrightarrow> set s \<subseteq> A
   \<Longrightarrow> set (sub_from p f pv n s) \<subseteq> A"
proof (induction p f pv n s rule: sub_from.induct)
  case (1 p f pv n s)
  note f = "1.prems"(1) and sA = "1.prems"(2)
  show ?case
  proof (cases "match_at p pv n s")
    case None
    show ?thesis
    proof (cases s)
      case Nil
      with None show ?thesis by (subst sub_from.simps) simp
    next
      case (Cons c cs)
      with "1.IH"(1) [OF None Cons f] sA have "set (sub_from p f (Some c) (n - 1) cs) \<subseteq> A"
        by simp
      with None Cons sA show ?thesis by (subst sub_from.simps) simp
    qed
  next
    case (Some a)
    obtain m st where a: "a = (m, st)" by (cases a)
    from match_at_chars [OF sA Some [unfolded a]]
    have m: "list_all (\<lambda>(g, t). set t \<subseteq> A) m" and r: "set (rest st) \<subseteq> A" by simp_all
    from f [OF m] have fm: "set (f m) \<subseteq> A" .
    show ?thesis
    proof (cases "length (rest st) < length s")
      case True
      from "1.IH"(2) [OF Some [unfolded a] refl True f r]
      have "set (sub_from p f (prev st) (left st) (rest st)) \<subseteq> A" .
      with Some a True fm show ?thesis by (subst sub_from.simps) simp
    next
      case False
      show ?thesis
      proof (cases s)
        case Nil
        with Some a False fm show ?thesis by (subst sub_from.simps) simp
      next
        case (Cons c cs)
        with "1.IH"(3) [OF Some [unfolded a] refl False Cons f] sA
        have "set (sub_from p f (Some c) (n - 1) cs) \<subseteq> A" by simp
        with Some a False fm Cons sA show ?thesis by (subst sub_from.simps) simp
      qed
    qed
  qed
qed

lemma re_sub_chars:
  assumes "\<And>m. list_all (\<lambda>(g, t). set t \<subseteq> A) m \<Longrightarrow> set (f m) \<subseteq> A" "set s \<subseteq> A"
  shows "set (re_sub p f s) \<subseteq> A"
  unfolding re_sub_def by (rule sub_from_chars) (fact assms)+

lemma replace_chars:
  "set new \<subseteq> A \<Longrightarrow> set s \<subseteq> A \<Longrightarrow> set (replace old new s) \<subseteq> A"
proof (induction old new s rule: replace.induct)
  case (1 old new s)
  show ?case
  proof (cases "old = []")
    case True
    with "1.prems" show ?thesis by (subst replace.simps) auto
  next
    case False
    show ?thesis
    proof (cases "prefix old s")
      case True
      from "1.prems" have "set (drop (length old) s) \<subseteq> A" by (auto dest: in_set_dropD)
      from "1.IH"(1) [OF False True "1.prems"(1) this] False True "1.prems"(1)
      show ?thesis by (subst replace.simps) simp
    next
      case np: False
      show ?thesis
      proof (cases s)
        case Nil
        with False np show ?thesis by (subst replace.simps) simp
      next
        case (Cons c cs)
        with "1.IH"(2) [OF False np Cons "1.prems"(1)] "1.prems"(2) False np
        show ?thesis by (subst replace.simps) simp
      qed
    qed
  qed
qed

lemma replace_delete: "replace [c] [] s = filter (\<lambda>x. x \<noteq> c) s"
proof (induction s)
  case Nil
  show ?case by (subst replace.simps) simp
next
  case (Cons x xs)
  then show ?case by (subst replace.simps) simp
qed

lemma delete_all: "set (foldl (\<lambda>osis c. replace [c] [] osis) osis cs) = set osis - set cs"
  by (induction cs arbitrary: osis) (auto simp: replace_delete)

lemma replace_absent: "\<not> sublist old s \<Longrightarrow> replace old new s = s"
proof (induction s)
  case Nil
  then show ?case by (subst replace.simps) auto
next
  case (Cons x xs)
  then have 1: "old \<noteq> []" and 2: "\<not> prefix old (x # xs)" and 3: "\<not> sublist old xs"
    by (auto simp: sublist_Cons_right)
  with Cons.IH show ?case by (subst replace.simps) simp
qed

lemma all_in_simps [simp]:
  "all_in A []" "all_in A (c # s) = (c \<in> A \<and> all_in A s)" "all_in A (s @ t) = (all_in A s \<and> all_in A t)"
  by (auto simp: all_in_def)

lemma all_in_gref [simp]: "groups_in A m \<Longrightarrow> all_in A (gref m g)"
  unfolding groups_in_def all_in_def by (rule gref_chars)

lemma all_in_re_sub:
  "(\<And>m. groups_in A m \<Longrightarrow> all_in A (f m)) \<Longrightarrow> all_in A s \<Longrightarrow> all_in A (re_sub p f s)"
  unfolding groups_in_def all_in_def by (rule re_sub_chars)

lemma all_in_replace: "all_in A new \<Longrightarrow> all_in A s \<Longrightarrow> all_in A (replace old new s)"
  unfolding all_in_def by (rule replace_chars)

section \<open>The cleanup pass leaves no scope marker\<close>

lemma non_characters_lower: "c \<in> set non_characters \<Longrightarrow> 64976 \<le> c"
  by (auto simp: non_characters_def)

lemma all_in_ascii [simp]: "all_in (- set non_characters) (u s)"
proof -
  have "(of_char c :: nat) \<notin> set non_characters" for c :: char
  proof
    assume "of_char c \<in> set non_characters"
    then have "(64976 :: nat) \<le> of_char c" by (rule non_characters_lower)
    moreover have "(of_char c :: nat) < 256" by (rule nat_of_char_less_256)
    ultimately show False by simp
  qed
  then show ?thesis by (auto simp: all_in_def u_def)
qed

lemma non_characters_range: "set non_characters = {64976..65007}"
proof
  show "set non_characters \<subseteq> {64976..65007}" by (simp add: non_characters_def)
  show "{64976..65007} \<subseteq> set non_characters"
  proof
    fix c :: nat assume "c \<in> {64976..65007}"
    then have "64976 \<le> c" "c \<le> 65007" by simp_all
    then show "c \<in> set non_characters" unfolding non_characters_def by (simp) arith
  qed
qed

lemma nl_clean [simp]: "nl \<notin> set non_characters"
  by (simp add: non_characters_def)

lemma all_in_end_block_cleanup:
  assumes "all_in (- set non_characters) osis" "all_in (- set non_characters) end_block"
  shows "all_in (- set non_characters) (end_block_cleanup osis end_block)"
  unfolding end_block_cleanup_def Let_def
  using assms by (intro all_in_re_sub) simp_all

lemma all_in_end_blocks:
  "all_in (- set non_characters) osis \<Longrightarrow> list_all (all_in (- set non_characters)) blocks
   \<Longrightarrow> all_in (- set non_characters) (foldl end_block_cleanup osis blocks)"
  by (induction blocks arbitrary: osis) (simp_all add: all_in_end_block_cleanup)

lemma all_in_lower: "all_in (- set non_characters) sb \<Longrightarrow> all_in (- set non_characters) (lower sb)"
  by (auto simp: all_in_def lower_def lower_char_def non_characters_def)

lemma all_in_special_book:
  assumes "all_in (- set non_characters) osis"
  shows "all_in (- set non_characters) (special_book osis sb)"
proof (cases "all_in (- set non_characters) sb")
  case True
  with all_in_lower [OF True] assms show ?thesis
    unfolding special_book_def by (intro all_in_replace) simp_all
next
  case False
  then obtain c where c: "c \<in> set sb" "c \<in> set non_characters" by (auto simp: all_in_def)
  have "\<not> sublist (u ''<div type=\"book\" osisID=\"'' @ sb @ u ''\">'') osis"
  proof
    assume "sublist (u ''<div type=\"book\" osisID=\"'' @ sb @ u ''\">'') osis"
    then have "set (u ''<div type=\"book\" osisID=\"'' @ sb @ u ''\">'') \<subseteq> set osis"
      by (rule set_mono_sublist)
    with c(1) have "c \<in> set osis" by auto
    with assms c(2) show False by (auto simp: all_in_def)
  qed
  then show ?thesis unfolding special_book_def using assms by (simp add: replace_absent)
qed

lemma all_in_special_books:
  "all_in (- set non_characters) osis \<Longrightarrow> all_in (- set non_characters) (foldl special_book osis sbs)"
  by (induction sbs arbitrary: osis) (simp_all add: all_in_special_book)

text \<open>
  Claim C1. Whatever text the stages and process_osisIDs hand over, the text that
  ConvertToOSIS returns has no code point from U+FDD0 (64976) to U+FDEF (65007): the
  cleanup pass deletes them all, and nothing after the deletion brings one back.
\<close>

theorem no_scope_marker_in_output:
  "set (ConvertToOSIS_end SPECIAL_BOOKS osis) \<inter> {64976..65007} = {}"
proof -
  let ?A = "- set non_characters"
  have del: "all_in ?A (foldl (\<lambda>osis c. replace [c] [] osis) x non_characters)" for x
    by (auto simp: delete_all all_in_def)
  have "all_in ?A (osis_reorder_and_cleanup osis)"
    unfolding osis_reorder_and_cleanup_def Let_def
    by (intro all_in_re_sub all_in_end_blocks del) simp_all
  then have "all_in ?A (ConvertToOSIS_end SPECIAL_BOOKS osis)"
    unfolding ConvertToOSIS_end_def Let_def by (rule all_in_special_books)
  then show ?thesis unfolding non_characters_range [symmetric] by (auto simp: all_in_def)
qed

section \<open>Evaluation\<close>

text \<open>
  The rules with which the simplifier runs the program on a given text. The congruence
  rules make it evaluate the text an operation is applied to before it looks at what the
  operation does next.
\<close>

lemmas rx_eval = re_sub_def re_sub_err_def re_search_def re_findall_def sub_from.simps
  sub_from_err.simps findall_from.simps search_from.simps ms_Star match_at_def plus_def opt_def u_def
  group_def gref_def set_cap_def word_before_def word_after_def is_word_def is_space_def
  isdigit_def cchars_def replace.simps split_def split_from.simps and_then_def Let_def

lemma re_sub_cong: "p = p' \<Longrightarrow> s = s' \<Longrightarrow> re_sub p f s = re_sub p' f s'" by simp
lemma re_sub_err_cong: "p = p' \<Longrightarrow> s = s' \<Longrightarrow> re_sub_err p f s = re_sub_err p' f s'" by simp
lemma sub_from_cong: "pv = pv' \<Longrightarrow> n = n' \<Longrightarrow> s = s' \<Longrightarrow> sub_from p f pv n s = sub_from p f pv' n' s'" by simp
lemma sub_from_err_cong: "pv = pv' \<Longrightarrow> n = n' \<Longrightarrow> s = s' \<Longrightarrow> sub_from_err p f pv n s = sub_from_err p f pv' n' s'" by simp
lemma and_then_cong: "r = r' \<Longrightarrow> and_then r f = and_then r' f" by simp

lemmas eval_cong = let_weak_cong re_sub_cong re_sub_err_cong sub_from_cong sub_from_err_cong and_then_cong

section \<open>A stage leaves a text without its constructs alone\<close>

subsection \<open>A pattern that begins with characters the text does not have\<close>












lemma not_sublist_longer: "\<not> sublist w s \<Longrightarrow> prefix w w' \<Longrightarrow> \<not> sublist w' s"
  by (meson prefix_imp_sublist sublist_order.order_trans)








section \<open>The caller of a note\<close>

lemmas footnote_eval = cvt_footnotes_def cvt_cross_references_def process_note_def
  process_xref_def note_n_def

lemma f_caller_plus:
  "cvt_footnotes (bs # u ''f + note'' @ bs # u ''f*'') False
     = Inr (u ''<note placement=\"foot\">note</note>'')"
  by (simp add: footnote_eval rx_eval cong: eval_cong)

lemma f_caller_minus:
  "cvt_footnotes (bs # u ''f - note'' @ bs # u ''f*'') False
     = Inr (u ''<note n=\"\" placement=\"foot\">note</note>'')"
  by (simp add: footnote_eval rx_eval cong: eval_cong)

lemma f_caller_other:
  "cvt_footnotes (bs # u ''f ab note'' @ bs # u ''f*'') False
     = Inr (u ''<note n=\"ab\" placement=\"foot\">note</note>'')"
  by (simp add: footnote_eval rx_eval cong: eval_cong)

lemma x_caller_other:
  "cvt_cross_references (bs # u ''x ab note'' @ bs # u ''x*'') False
     = Inr (u ''<note n=\"ab\" type=\"crossReference\">note</note>'')"
  by (simp add: footnote_eval rx_eval cong: eval_cong)

lemma fe_caller_other:
  "cvt_footnotes (bs # u ''fe ab note'' @ bs # u ''fe*'') False
     = Inr (u ''<note n=\"a\" placement=\"end\">b note</note>'')"
  by (simp add: footnote_eval rx_eval cong: eval_cong)

text \<open>
  A footnote without a caller: group 1 takes no part in the match and the replacement
  function raises.
\<close>

lemma f_without_caller:
  "cvt_footnotes (bs # u ''f '' @ bs # u ''ft note'' @ bs # u ''f*'') False = Inl TypeError"
  by (simp add: footnote_eval rx_eval cong: eval_cong)

text \<open>
  Claim C10 at the callers +, - and ab. For \<open>\f\<close> and \<open>\x\<close> the attribute n is absent, empty
  and ab, as the claim says. For \<open>\fe\<close> the caller ab gives n="a", and the b is left in
  the text of the note: the group of the caller is lazy and the white space behind it
  optional, so the group stops after one character.
\<close>

theorem note_caller:
  "cvt_footnotes (bs # u ''f + note'' @ bs # u ''f*'') False
     = Inr (u ''<note placement=\"foot\">note</note>'')
   \<and> cvt_footnotes (bs # u ''f - note'' @ bs # u ''f*'') False
     = Inr (u ''<note n=\"\" placement=\"foot\">note</note>'')
   \<and> cvt_footnotes (bs # u ''f ab note'' @ bs # u ''f*'') False
     = Inr (u ''<note n=\"ab\" placement=\"foot\">note</note>'')
   \<and> cvt_cross_references (bs # u ''x ab note'' @ bs # u ''x*'') False
     = Inr (u ''<note n=\"ab\" type=\"crossReference\">note</note>'')
   \<and> cvt_footnotes (bs # u ''fe ab note'' @ bs # u ''fe*'') False
     = Inr (u ''<note n=\"a\" placement=\"end\">b note</note>'')"
  using f_caller_plus f_caller_minus f_caller_other x_caller_other fe_caller_other
  by (intro conjI)

end
